theory Spec2Isabelle
  imports Complex_Main "HOL-Library.Log_Nat"
begin

section \<open>Python values used by app.py\<close>

text \<open>
  A Python \<open>str\<close> is a sequence of Unicode code points. The rupee sign of the patterns
  is the single code point U+20B9, so a text is modelled as a list of code points
  (natural numbers), not as a list of bytes.
\<close>

type_synonym uchar = nat
type_synonym pystr = "uchar list"

definition ustr :: "string \<Rightarrow> pystr" where
  "ustr s = map of_char s"

definition rupee :: uchar where
  "rupee = 8377"

text \<open>The exceptions that the modelled statements can raise.\<close>

datatype error = ValueError | AttributeError | OverflowError | ZeroDivisionError

text \<open>
  What the code takes from the interpreter and its Unicode database rather than from the
  repository: the decimal-digit table behind \<open>\d\<close> and \<open>int()\<close> (category Nd, with the
  digit's value), the whitespace table behind \<open>\s\<close>, \<open>str.lower\<close>, and the limit
  on the number of digits \<open>int()\<close> converts (\<open>sys.get_int_max_str_digits()\<close>, 0 when
  there is none). They are parameters of the model.
\<close>

record pyenv =
  unicode_decimal :: "uchar \<Rightarrow> nat option"
  unicode_space :: "uchar \<Rightarrow> bool"
  str_lower :: "pystr \<Rightarrow> pystr"
  int_max_str_digits :: nat

text \<open>
  An instance that agrees with CPython 3.11 on every text made of ASCII characters and
  the rupee sign: ASCII digits, the whitespace code points of \<open>str.isspace\<close>, ASCII
  lower-casing, and the default limit of 4300 digits.
\<close>

definition ascii_decimal :: "uchar \<Rightarrow> nat option" where
  "ascii_decimal u = (if 48 \<le> u \<and> u \<le> 57 then Some (u - 48) else None)"

definition py_isspace :: "uchar \<Rightarrow> bool" where
  "py_isspace u \<longleftrightarrow>
     (9 \<le> u \<and> u \<le> 13) \<or> (28 \<le> u \<and> u \<le> 32) \<or> u = 133 \<or> u = 160 \<or> u = 5760 \<or>
     (8192 \<le> u \<and> u \<le> 8202) \<or> u = 8232 \<or> u = 8233 \<or> u = 8239 \<or> u = 8287 \<or> u = 12288"

definition ascii_lower :: "uchar \<Rightarrow> uchar" where
  "ascii_lower u = (if 65 \<le> u \<and> u \<le> 90 then u + 32 else u)"

definition basic_env :: pyenv where
  "basic_env = \<lparr> unicode_decimal = ascii_decimal, unicode_space = py_isspace,
                  str_lower = map ascii_lower, int_max_str_digits = 4300 \<rparr>"

section \<open>The regular expressions of the \<open>re\<close> module\<close>

text \<open>
  The fragment of the pattern language that app.py uses: literal text, \<open>\s\<close>, \<open>\d\<close>,
  a character set, sequence, alternation, the greedy quantifiers \<open>?\<close>, \<open>*\<close>, \<open>+\<close>,
  non-capturing groups (plain nesting here) and one capturing group.
\<close>

datatype atom = Ch char | Cp uchar | Space | Digit

datatype regex =
    Eps
  | Atom atom
  | Cls "atom list"
  | Lit string
  | Seq regex regex
  | Alt regex regex
  | Opt regex
  | Star regex
  | Plus regex
  | Group regex

fun atom_ok :: "pyenv \<Rightarrow> atom \<Rightarrow> uchar \<Rightarrow> bool" where
  "atom_ok env (Ch c) u = (u = of_char c)"
| "atom_ok env (Cp n) u = (u = n)"
| "atom_ok env Space u = unicode_space env u"
| "atom_ok env Digit u = (unicode_decimal env u \<noteq> None)"

text \<open>
  A matcher state is the text still to be read and the text of group 1, if the group has
  been closed. Matching a pattern from a state gives the states after every way of matching,
  in the order in which the backtracking matcher of \<open>re\<close> tries them; the head of the list
  is the match that \<open>re\<close> reports.
\<close>

type_synonym mstate = "pystr \<times> pystr option"

fun step1 :: "(uchar \<Rightarrow> bool) \<Rightarrow> mstate \<Rightarrow> mstate list" where
  "step1 P ([], g) = []"
| "step1 P (u # us, g) = (if P u then [(us, g)] else [])"

fun lit_match :: "pystr \<Rightarrow> mstate \<Rightarrow> mstate list" where
  "lit_match [] st = [st]"
| "lit_match (c # cs) ([], g) = []"
| "lit_match (c # cs) (u # us, g) = (if u = c then lit_match cs (us, g) else [])"

text \<open>
  A greedy repetition first tries one more round of its body and only then stops. A round
  that reads nothing ends the repetition, as in \<open>re\<close>, so the number of rounds is at most
  the length of the text, which is the bound given to \<open>star_iter\<close>.
\<close>

fun star_iter :: "(mstate \<Rightarrow> mstate list) \<Rightarrow> nat \<Rightarrow> mstate \<Rightarrow> mstate list" where
  "star_iter f 0 st = [st]"
| "star_iter f (Suc n) st =
     concat (map (star_iter f n) (filter (\<lambda>t. length (fst t) < length (fst st)) (f st))) @ [st]"

primrec rmatch :: "pyenv \<Rightarrow> regex \<Rightarrow> mstate \<Rightarrow> mstate list" where
  "rmatch env Eps = (\<lambda>st. [st])"
| "rmatch env (Atom a) = step1 (atom_ok env a)"
| "rmatch env (Cls as) = step1 (\<lambda>u. list_ex (\<lambda>a. atom_ok env a u) as)"
| "rmatch env (Lit s) = lit_match (ustr s)"
| "rmatch env (Seq r1 r2) = (\<lambda>st. concat (map (rmatch env r2) (rmatch env r1 st)))"
| "rmatch env (Alt r1 r2) = (\<lambda>st. rmatch env r1 st @ rmatch env r2 st)"
| "rmatch env (Opt r) = (\<lambda>st. rmatch env r st @ [st])"
| "rmatch env (Star r) = (\<lambda>st. star_iter (rmatch env r) (length (fst st)) st)"
| "rmatch env (Plus r) =
     (\<lambda>st. concat (map (\<lambda>t. star_iter (rmatch env r) (length (fst t)) t) (rmatch env r st)))"
| "rmatch env (Group r) =
     (\<lambda>st. map (\<lambda>t. (fst t, Some (take (length (fst st) - length (fst t)) (fst st))))
                (rmatch env r st))"

text \<open>\<open>re.search\<close>: the first match, trying every start position from the left.\<close>

fun re_search :: "pyenv \<Rightarrow> regex \<Rightarrow> pystr \<Rightarrow> mstate option" where
  "re_search env r [] = (case rmatch env r ([], None) of [] \<Rightarrow> None | m # _ \<Rightarrow> Some m)"
| "re_search env r (u # us) =
     (case rmatch env r (u # us, None) of [] \<Rightarrow> re_search env r us | m # _ \<Rightarrow> Some m)"

text \<open>
  \<open>re.finditer\<close>: the matches from left to right, each search starting where the previous
  match ended. No pattern of app.py matches the empty string; for a pattern that does, the
  model moves one character ahead after an empty match.
\<close>

function finditer :: "pyenv \<Rightarrow> regex \<Rightarrow> pystr \<Rightarrow> mstate list" where
  "finditer env r [] = (case rmatch env r ([], None) of [] \<Rightarrow> [] | m # _ \<Rightarrow> [m])"
| "finditer env r (u # us) =
     (case rmatch env r (u # us, None) of
        [] \<Rightarrow> finditer env r us
      | m # _ \<Rightarrow>
          m # (if length (fst m) < Suc (length us) then finditer env r (fst m)
               else finditer env r us))"
  by pat_completeness auto
termination
  by (relation "measure (\<lambda>(env, r, s). length s)") auto

text \<open>\<open>match.group(1)\<close> followed by \<open>.replace(',', '')\<close>; on a group that took no part
  in the match \<open>group(1)\<close> is \<open>None\<close> and the method call raises.\<close>

definition group1_no_commas :: "mstate \<Rightarrow> error + pystr" where
  "group1_no_commas m =
     (case snd m of None \<Rightarrow> Inl AttributeError
      | Some g \<Rightarrow> Inr (filter (\<lambda>u. u \<noteq> of_char CHR '','') g))"

text \<open>
  \<open>int(s)\<close> on the text of a digit group. The texts that reach it here consist of decimal
  digits only (the group matches digits and commas, and the commas are removed); signs,
  underscores and surrounding blanks, which \<open>int\<close> would also read, do not occur.
\<close>

fun digits_value :: "pyenv \<Rightarrow> pystr \<Rightarrow> int \<Rightarrow> int option" where
  "digits_value env [] acc = Some acc"
| "digits_value env (u # us) acc =
     (case unicode_decimal env u of None \<Rightarrow> None
      | Some d \<Rightarrow> digits_value env us (10 * acc + int d))"

definition py_int_str :: "pyenv \<Rightarrow> pystr \<Rightarrow> error + int" where
  "py_int_str env s =
     (if s = [] then Inl ValueError
      else if 0 < int_max_str_digits env \<and> int_max_str_digits env < length s then Inl ValueError
      else case digits_value env s 0 of None \<Rightarrow> Inl ValueError | Some n \<Rightarrow> Inr n)"

definition match_amount :: "pyenv \<Rightarrow> mstate \<Rightarrow> error + int" where
  "match_amount env m =
     (case group1_no_commas m of Inl e \<Rightarrow> Inl e | Inr s \<Rightarrow> py_int_str env s)"

section \<open>The patterns of \<open>extract_budget_from_response\<close>\<close>

datatype category = accommodation | transport | food | activities | miscellaneous

definition seqs :: "regex list \<Rightarrow> regex" where
  "seqs rs = foldr Seq rs Eps"

definition alts :: "string list \<Rightarrow> regex" where
  "alts ws = foldr (\<lambda>w r. Alt (Lit w) r) (butlast ws) (Lit (last ws))"

text \<open>\<open>(\d+(?:,\d+)*)\<close>\<close>

definition amount_group :: regex where
  "amount_group = Group (Seq (Plus (Atom Digit)) (Star (Seq (Atom (Ch CHR '','')) (Plus (Atom Digit)))))"

text \<open>\<open>\s*\<close>, \<open>[:\s-]*\<close>, \<open>(?:for|per|\/)\<close> and \<open>(?:\()?\<close>\<close>

definition blanks :: regex where
  "blanks = Star (Atom Space)"

definition separators :: regex where
  "separators = Star (Cls [Ch CHR '':'', Space, Ch CHR ''-''])"

definition for_per_slash :: regex where
  "for_per_slash = alts [''for'', ''per'', ''/'']"

definition opt_paren :: regex where
  "opt_paren = Opt (Atom (Ch CHR ''(''))"

text \<open>The rupee sign, then \<open>\s*(\d+(?:,\d+)*)\<close> (line 21).\<close>

definition user_budget_pattern :: regex where
  "user_budget_pattern = seqs [Atom (Cp rupee), blanks, amount_group]"

text \<open>A keyword, then \<open>[:\s-]*\<close>, an optional rupee sign, \<open>\s*\<close> and the amount.\<close>

definition keyword_then_amount :: "regex \<Rightarrow> regex" where
  "keyword_then_amount kw = seqs [kw, separators, Opt (Atom (Cp rupee)), blanks, amount_group]"

text \<open>The rupee sign, \<open>\s*\<close>, the amount, \<open>\s*\<close>, and what the pattern asks for after it.\<close>

definition amount_then :: "regex list \<Rightarrow> regex" where
  "amount_then rs = seqs ([Atom (Cp rupee), blanks, amount_group, blanks] @ rs)"

definition patterns :: "(category \<times> regex list) list" where
  "patterns =
    [(accommodation,
        [keyword_then_amount (Lit ''accommodation''),
         amount_then [for_per_slash, blanks, Lit ''accommodation'']]),
     (transport,
        [keyword_then_amount (Seq (Lit ''transport'') (Opt (Lit ''ation''))),
         amount_then [opt_paren, alts [''bike'', ''car'', ''train'', ''bus'', ''flight'']]]),
     (food,
        [keyword_then_amount (Lit ''food''),
         amount_then [for_per_slash, blanks, Lit ''food'']]),
     (activities,
        [keyword_then_amount (Seq (Opt (Lit ''sightseeing and '')) (Lit ''activities'')),
         amount_then [opt_paren, alts [''entrance'', ''water sports'', ''sightseeing'']]]),
     (miscellaneous,
        [keyword_then_amount (alts [''miscellaneous'', ''misc'', ''other'']),
         amount_then [for_per_slash, blanks, alts [''misc'', ''other'']]])]"

section \<open>The amount parser (lines 19 to 59)\<close>

text \<open>A \<open>dict\<close> from category to amount, in insertion order; assigning to a key that is
  present keeps its place.\<close>

type_synonym breakdown = "(category \<times> int) list"

fun dict_set :: "breakdown \<Rightarrow> category \<Rightarrow> int \<Rightarrow> breakdown" where
  "dict_set [] k v = [(k, v)]"
| "dict_set ((k', v') # kvs) k v =
     (if k' = k then (k, v) # kvs else (k', v') # dict_set kvs k v)"

definition dict_values_sum :: "breakdown \<Rightarrow> int" where
  "dict_values_sum d = sum_list (map snd d)"

text \<open>Lines 20 to 23: the user's budget is the first rupee-marked number of the user's text.\<close>

definition parse_user_budget :: "pyenv \<Rightarrow> pystr \<Rightarrow> error + int option" where
  "parse_user_budget env user_input =
     (case re_search env user_budget_pattern user_input of
        None \<Rightarrow> Inr None
      | Some m \<Rightarrow> (case match_amount env m of Inl e \<Rightarrow> Inl e | Inr n \<Rightarrow> Inr (Some n)))"

text \<open>Lines 57 to 59: what one match does to \<open>response_breakdown\<close>.\<close>

definition record_amount :: "category \<Rightarrow> int \<Rightarrow> breakdown \<Rightarrow> breakdown" where
  "record_amount c amount rb =
     (if amount \<ge> 500 then
        (case map_of rb c of
           None \<Rightarrow> dict_set rb c amount
         | Some old \<Rightarrow> if amount > old then dict_set rb c amount else rb)
      else rb)"

text \<open>Lines 54 to 59: the loop over the matches of one pattern.\<close>

fun match_loop :: "pyenv \<Rightarrow> category \<Rightarrow> mstate list \<Rightarrow> breakdown \<Rightarrow> error + breakdown" where
  "match_loop env c [] rb = Inr rb"
| "match_loop env c (m # ms) rb =
     (case match_amount env m of
        Inl e \<Rightarrow> Inl e
      | Inr amount \<Rightarrow> match_loop env c ms (record_amount c amount rb))"

text \<open>Lines 52 to 59: the loop over the patterns of one category.\<close>

fun pattern_loop :: "pyenv \<Rightarrow> category \<Rightarrow> regex list \<Rightarrow> pystr \<Rightarrow> breakdown \<Rightarrow> error + breakdown" where
  "pattern_loop env c [] response_text rb = Inr rb"
| "pattern_loop env c (p # ps) response_text rb =
     (case match_loop env c (finditer env p (str_lower env response_text)) rb of
        Inl e \<Rightarrow> Inl e
      | Inr rb' \<Rightarrow> pattern_loop env c ps response_text rb')"

text \<open>Lines 51 to 59: the loop over the categories.\<close>

fun category_loop :: "pyenv \<Rightarrow> (category \<times> regex list) list \<Rightarrow> pystr \<Rightarrow> breakdown \<Rightarrow> error + breakdown" where
  "category_loop env [] response_text rb = Inr rb"
| "category_loop env ((c, ps) # rest) response_text rb =
     (case pattern_loop env c ps response_text rb of
        Inl e \<Rightarrow> Inl e
      | Inr rb' \<Rightarrow> category_loop env rest response_text rb')"

definition parse_response :: "pyenv \<Rightarrow> pystr \<Rightarrow> error + breakdown" where
  "parse_response env response_text = category_loop env patterns response_text []"

section \<open>Python floats\<close>

text \<open>
  A Python \<open>float\<close> is an IEEE 754 binary64 number. A finite one is kept as a pair of
  integers \<open>m\<close> and \<open>e\<close> standing for \<open>m * 2 ^ e\<close>, so every operation below is integer
  arithmetic. Negative zero is not told apart from zero: the code only truncates floats
  and compares them with integers, and both read the two zeros alike.
\<close>

datatype pyfloat = Dbl int int | PInf | NInf | NaN

text \<open>The real number that a finite float denotes (of use in the proofs only).\<close>

fun fval :: "pyfloat \<Rightarrow> real" where
  "fval (Dbl m e) = of_int m * 2 powi e"
| "fval _ = 0"

text \<open>The quotient \<open>n / d\<close> (\<open>d\<close> positive) rounded to the nearest integer, a tie going
  to the even one.\<close>

definition rhe_div :: "int \<Rightarrow> int \<Rightarrow> int" where
  "rhe_div n d =
     (let f = n div d; r = n mod d
      in if 2 * r < d then f else if d < 2 * r then f + 1 else if even f then f else f + 1)"

text \<open>\<open>\<lfloor>log\<^sub>2 (p / q)\<rfloor>\<close> for positive \<open>p\<close> and \<open>q\<close>, from the bit lengths.\<close>

definition ilog2_ratio :: "int \<Rightarrow> int \<Rightarrow> int" where
  "ilog2_ratio p q =
     (let d = bitlen p - bitlen q
      in if (if 0 \<le> d then q * 2 ^ nat d \<le> p else q \<le> p * 2 ^ nat (- d)) then d else d - 1)"

text \<open>
  Rounding the rational \<open>p / q\<close> (\<open>q\<close> positive) to binary64, to nearest with ties to
  even: the unit in the last place is \<open>2 ^ e\<close> with \<open>e\<close> 52 below the binary exponent of
  the number, and not below \<open>- 1074\<close> (the subnormal numbers); the mantissa is the quotient
  by that unit, rounded. The largest finite number is \<open>(2 ^ 53 - 1) * 2 ^ 971\<close>; a result
  of magnitude \<open>2 ^ 1024\<close> or more is an overflow.
\<close>

definition round_ratio :: "int \<Rightarrow> int \<Rightarrow> pyfloat" where
  "round_ratio p q =
     (if p = 0 then Dbl 0 0
      else
        let e = max (ilog2_ratio \<bar>p\<bar> q) (- 1022) - 52;
            m = (if 0 \<le> e then rhe_div p (q * 2 ^ nat e) else rhe_div (p * 2 ^ nat (- e)) q)
        in if 971 < e \<or> (e = 971 \<and> 2 ^ 53 \<le> \<bar>m\<bar>) then (if 0 < p then PInf else NInf)
           else Dbl m e)"

text \<open>A float literal such as \<open>0.35\<close> denotes the binary64 number nearest to 35/100.\<close>

definition float_lit :: "int \<Rightarrow> int \<Rightarrow> pyfloat" where
  "float_lit p q = round_ratio p q"

text \<open>The conversion of an \<open>int\<close> operand to \<open>float\<close>, which raises when the integer is
  too large.\<close>

definition float_of_int :: "int \<Rightarrow> error + pyfloat" where
  "float_of_int n =
     (case round_ratio n 1 of
        Dbl m e \<Rightarrow> Inr (Dbl m e)
      | _ \<Rightarrow> Inl OverflowError)"

text \<open>\<open>a / b\<close> on two \<open>int\<close>s: the correctly rounded quotient.\<close>

definition int_truediv :: "int \<Rightarrow> int \<Rightarrow> error + pyfloat" where
  "int_truediv a b =
     (if b = 0 then Inl ZeroDivisionError
      else case (if 0 < b then round_ratio a b else round_ratio (- a) (- b)) of
        Dbl m e \<Rightarrow> Inr (Dbl m e)
      | _ \<Rightarrow> Inl OverflowError)"

text \<open>\<open>x * y\<close> on two floats; an overflow gives an infinity and raises nothing.\<close>

fun fmul :: "pyfloat \<Rightarrow> pyfloat \<Rightarrow> pyfloat" where
  "fmul (Dbl m1 e1) (Dbl m2 e2) =
     (if 0 \<le> e1 + e2 then round_ratio (m1 * m2 * 2 ^ nat (e1 + e2)) 1
      else round_ratio (m1 * m2) (2 ^ nat (- (e1 + e2))))"
| "fmul NaN _ = NaN"
| "fmul _ NaN = NaN"
| "fmul (Dbl m e) PInf = (if m = 0 then NaN else if 0 < m then PInf else NInf)"
| "fmul (Dbl m e) NInf = (if m = 0 then NaN else if 0 < m then NInf else PInf)"
| "fmul PInf (Dbl m e) = (if m = 0 then NaN else if 0 < m then PInf else NInf)"
| "fmul NInf (Dbl m e) = (if m = 0 then NaN else if 0 < m then NInf else PInf)"
| "fmul PInf PInf = PInf"
| "fmul NInf NInf = PInf"
| "fmul PInf NInf = NInf"
| "fmul NInf PInf = NInf"

text \<open>\<open>n * x\<close> with \<open>n\<close> an \<open>int\<close> and \<open>x\<close> a float.\<close>

definition int_times_float :: "int \<Rightarrow> pyfloat \<Rightarrow> error + pyfloat" where
  "int_times_float n x =
     (case float_of_int n of Inl err \<Rightarrow> Inl err | Inr y \<Rightarrow> Inr (fmul y x))"

text \<open>\<open>int(x)\<close> truncates towards zero and raises on an infinity or a NaN.\<close>

fun int_of_float :: "pyfloat \<Rightarrow> error + int" where
  "int_of_float (Dbl m e) =
     Inr (if 0 \<le> e then m * 2 ^ nat e
          else if 0 \<le> m then m div 2 ^ nat (- e) else - ((- m) div 2 ^ nat (- e)))"
| "int_of_float PInf = Inl OverflowError"
| "int_of_float NInf = Inl OverflowError"
| "int_of_float NaN = Inl ValueError"

text \<open>\<open>n > x\<close> with \<open>n\<close> an \<open>int\<close> and \<open>x\<close> a float: Python compares the exact values.\<close>

fun int_gt_float :: "int \<Rightarrow> pyfloat \<Rightarrow> bool" where
  "int_gt_float n (Dbl m e) =
     (if 0 \<le> e then m * 2 ^ nat e < n else m < n * 2 ^ nat (- e))"
| "int_gt_float n PInf = False"
| "int_gt_float n NInf = True"
| "int_gt_float n NaN = False"

text \<open>What rounding does to a positive ratio below \<open>2 ^ 53\<close>: the relative error is at most
  \<open>2 ^ - 53\<close>, and the result stays on the same side of every integer.\<close>

definition rounds_to :: "real \<Rightarrow> pyfloat \<Rightarrow> bool" where
  "rounds_to x y \<longleftrightarrow>
     (\<exists>m e. y = Dbl m e \<and> 0 < m \<and>
            \<bar>fval y - x\<bar> \<le> x / 2 ^ 53 \<and>
            (\<forall>k. real_of_int k \<le> x \<longrightarrow> real_of_int k \<le> fval y) \<and>
            (\<forall>k. x \<le> real_of_int k \<longrightarrow> fval y \<le> real_of_int k))"

section \<open>Reconciliation (lines 61 to 96)\<close>

datatype tag = specific | scaled | estimated

text \<open>The function returns a triple of breakdown, total and tag, or three \<open>None\<close>s.\<close>

type_synonym outcome = "(breakdown \<times> int \<times> tag) option"

text \<open>\<open>int(n * x)\<close>: lines 73 and 83 to 87.\<close>

definition int_of_product :: "int \<Rightarrow> pyfloat \<Rightarrow> error + int" where
  "int_of_product n x =
     (case int_times_float n x of Inl err \<Rightarrow> Inl err | Inr y \<Rightarrow> int_of_float y)"

text \<open>Lines 72 to 75: the comprehension over the items of \<open>response_breakdown\<close>.\<close>

fun scale_items :: "pyfloat \<Rightarrow> breakdown \<Rightarrow> error + breakdown" where
  "scale_items scale_factor [] = Inr []"
| "scale_items scale_factor ((c, amount) # rest) =
     (case int_of_product amount scale_factor of
        Inl err \<Rightarrow> Inl err
      | Inr v \<Rightarrow>
          (case scale_items scale_factor rest of
             Inl err \<Rightarrow> Inl err
           | Inr rest' \<Rightarrow> Inr ((c, v) # rest')))"

text \<open>Lines 82 to 88: the dictionary display, its values computed from top to bottom.\<close>

definition shares :: "(category \<times> int \<times> int) list" where
  "shares = [(accommodation, 35, 100), (transport, 25, 100), (food, 20, 100),
             (activities, 15, 100), (miscellaneous, 5, 100)]"

fun estimate_items :: "int \<Rightarrow> (category \<times> int \<times> int) list \<Rightarrow> error + breakdown" where
  "estimate_items user_budget [] = Inr []"
| "estimate_items user_budget ((c, p, q) # rest) =
     (case int_of_product user_budget (float_lit p q) of
        Inl err \<Rightarrow> Inl err
      | Inr v \<Rightarrow>
          (case estimate_items user_budget rest of
             Inl err \<Rightarrow> Inl err
           | Inr rest' \<Rightarrow> Inr ((c, v) # rest')))"

text \<open>Lines 64 to 89: the branch taken when \<open>user_budget\<close> is neither \<open>None\<close> nor 0.\<close>

definition with_user_budget :: "breakdown \<Rightarrow> int \<Rightarrow> error + outcome" where
  "with_user_budget response_breakdown user_budget =
     (if response_breakdown \<noteq> [] then
        (let response_total = dict_values_sum response_breakdown
         in case int_times_float user_budget (float_lit 1 10) of
              Inl err \<Rightarrow> Inl err
            | Inr tenth \<Rightarrow>
                if int_gt_float \<bar>response_total - user_budget\<bar> tenth then
                  (case int_truediv user_budget response_total of
                     Inl err \<Rightarrow> Inl err
                   | Inr scale_factor \<Rightarrow>
                       (case scale_items scale_factor response_breakdown of
                          Inl err \<Rightarrow> Inl err
                        | Inr budget_data \<Rightarrow> Inr (Some (budget_data, user_budget, scaled))))
                else Inr (Some (response_breakdown, response_total, specific)))
      else
        (case estimate_items user_budget shares of
           Inl err \<Rightarrow> Inl err
         | Inr budget_data \<Rightarrow> Inr (Some (budget_data, user_budget, estimated))))"

text \<open>Lines 91 to 96: no usable user budget.\<close>

definition without_user_budget :: "breakdown \<Rightarrow> outcome" where
  "without_user_budget response_breakdown =
     (if response_breakdown \<noteq> [] then
        Some (response_breakdown, dict_values_sum response_breakdown, specific)
      else None)"

definition reconcile :: "breakdown \<Rightarrow> int option \<Rightarrow> error + outcome" where
  "reconcile response_breakdown user_budget =
     (case user_budget of
        None \<Rightarrow> Inr (without_user_budget response_breakdown)
      | Some b \<Rightarrow>
          if b \<noteq> 0 then with_user_budget response_breakdown b
          else Inr (without_user_budget response_breakdown))"

definition extract_budget_from_response :: "pyenv \<Rightarrow> pystr \<Rightarrow> pystr \<Rightarrow> error + outcome" where
  "extract_budget_from_response env response_text user_input =
     (case parse_user_budget env user_input of
        Inl err \<Rightarrow> Inl err
      | Inr user_budget \<Rightarrow>
          (case parse_response env response_text of
             Inl err \<Rightarrow> Inl err
           | Inr response_breakdown \<Rightarrow> reconcile response_breakdown user_budget))"

section \<open>The session and the manual entry (lines 496 to 499 and 560 to 574)\<close>

text \<open>The keys of \<open>st.session_state\<close> that the budget code writes; a key that is not set
  is \<open>None\<close>.\<close>

record session =
  latest_budget :: "breakdown option"
  budget_total :: "int option"
  show_budget_input :: bool

text \<open>Lines 497 to 499: what the chat turn stores after the extraction.\<close>

definition store_extracted :: "outcome \<Rightarrow> session \<Rightarrow> session" where
  "store_extracted r s =
     (case r of
        None \<Rightarrow> s
      | Some (budget_data, total_budget, budget_type) \<Rightarrow>
          if budget_data \<noteq> [] then
            s\<lparr>latest_budget := Some budget_data, budget_total := Some total_budget\<rparr>
          else s)"



section \<open>What the page shows of a budget (lines 98 to 153, 502 to 538 and 581 to 607)\<close>









section \<open>The match candidates of a category\<close>

text \<open>
  The amounts of the matches whose conversion succeeds, in the order of the matches; the
  matches of all the patterns listed for a category, in the order in which the loops visit
  them; and the candidates of a category that pass the threshold of 500.
\<close>

fun amounts_of :: "pyenv \<Rightarrow> mstate list \<Rightarrow> int list" where
  "amounts_of env [] = []"
| "amounts_of env (m # ms) =
     (case match_amount env m of
        Inl err \<Rightarrow> amounts_of env ms
      | Inr a \<Rightarrow> a # amounts_of env ms)"

definition category_matches ::
    "pyenv \<Rightarrow> (category \<times> regex list) list \<Rightarrow> category \<Rightarrow> pystr \<Rightarrow> mstate list" where
  "category_matches env pats c response_text =
     concat (map (\<lambda>(c', ps).
                    if c' = c then concat (map (\<lambda>p. finditer env p (str_lower env response_text)) ps)
                    else [])
                 pats)"

definition surviving :: "pyenv \<Rightarrow> category \<Rightarrow> pystr \<Rightarrow> int list" where
  "surviving env c response_text =
     filter (\<lambda>a. 500 \<le> a) (amounts_of env (category_matches env patterns c response_text))"

text \<open>What the loop keeps for a category: the largest amount seen so far among those that
  reach 500.\<close>

definition keep_max :: "int option \<Rightarrow> int \<Rightarrow> int option" where
  "keep_max old a =
     (if 500 \<le> a then (case old of None \<Rightarrow> Some a | Some v \<Rightarrow> Some (max v a)) else old)"

definition best :: "int option \<Rightarrow> int list \<Rightarrow> int option" where
  "best old as = fold (\<lambda>a old. keep_max old a) as old"

definition amounts_ok :: "breakdown \<Rightarrow> bool" where
  "amounts_ok rb \<longleftrightarrow> (\<forall>(c, a) \<in> set rb. 500 \<le> a)"

section \<open>Evaluating the model on concrete texts\<close>

lemmas regex_defs =
  amount_group_def keyword_then_amount_def amount_then_def seqs_def alts_def separators_def
  blanks_def for_per_slash_def opt_paren_def user_budget_pattern_def

lemmas env_defs = basic_env_def ascii_decimal_def py_isspace_def ascii_lower_def

lemma ustr_literals:
  "ustr ''accommodation'' = [97, 99, 99, 111, 109, 109, 111, 100, 97, 116, 105, 111, 110]"
  "ustr ''transport'' = [116, 114, 97, 110, 115, 112, 111, 114, 116]"
  "ustr ''ation'' = [97, 116, 105, 111, 110]"
  "ustr ''food'' = [102, 111, 111, 100]"
  "ustr ''sightseeing and '' = [115, 105, 103, 104, 116, 115, 101, 101, 105, 110, 103, 32, 97, 110, 100, 32]"
  "ustr ''activities'' = [97, 99, 116, 105, 118, 105, 116, 105, 101, 115]"
  "ustr ''miscellaneous'' = [109, 105, 115, 99, 101, 108, 108, 97, 110, 101, 111, 117, 115]"
  "ustr ''misc'' = [109, 105, 115, 99]"
  "ustr ''other'' = [111, 116, 104, 101, 114]"
  "ustr ''for'' = [102, 111, 114]"
  "ustr ''per'' = [112, 101, 114]"
  "ustr ''/'' = [47]"
  "ustr ''bike'' = [98, 105, 107, 101]"
  "ustr ''car'' = [99, 97, 114]"
  "ustr ''train'' = [116, 114, 97, 105, 110]"
  "ustr ''bus'' = [98, 117, 115]"
  "ustr ''flight'' = [102, 108, 105, 103, 104, 116]"
  "ustr ''entrance'' = [101, 110, 116, 114, 97, 110, 99, 101]"
  "ustr ''water sports'' = [119, 97, 116, 101, 114, 32, 115, 112, 111, 114, 116, 115]"
  "ustr ''sightseeing'' = [115, 105, 103, 104, 116, 115, 101, 101, 105, 110, 103]"
  by (simp_all add: ustr_def)

lemmas parse_defs =
  parse_response_def patterns_def regex_defs env_defs rupee_def match_amount_def
  group1_no_commas_def py_int_str_def record_amount_def parse_user_budget_def ustr_literals

lemma text_food3:
  "ustr ''food 300 food 900 food 700'' =
     [102, 111, 111, 100, 32, 51, 48, 48, 32, 102, 111, 111, 100, 32, 57, 48, 48, 32,
      102, 111, 111, 100, 32, 55, 48, 48]"
  by (simp add: ustr_def)

lemma parse_food3:
  "parse_response basic_env (ustr ''food 300 food 900 food 700'') = Inr [(food, 900)]"
  unfolding text_food3 by (simp add: parse_defs)

lemma surviving_food3:
  "surviving basic_env food (ustr ''food 300 food 900 food 700'') = [900, 700]"
  unfolding text_food3 by (simp add: surviving_def category_matches_def parse_defs)

lemmas float_defs =
  round_ratio_def ilog2_ratio_def rhe_div_def float_lit_def float_of_int_def int_truediv_def
  int_times_float_def int_of_product_def compute_bitlen

lemmas reconcile_defs =
  reconcile_def with_user_budget_def without_user_budget_def dict_values_sum_def shares_def

lemma text_acc_tr:
  "ustr ''accommodation 4000 transport 2000'' =
     [97, 99, 99, 111, 109, 109, 111, 100, 97, 116, 105, 111, 110, 32, 52, 48, 48, 48, 32,
      116, 114, 97, 110, 115, 112, 111, 114, 116, 32, 50, 48, 48, 48]"
  by (simp add: ustr_def)

lemma parse_acc_tr:
  "parse_response basic_env (ustr ''accommodation 4000 transport 2000'') =
     Inr [(accommodation, 4000), (transport, 2000)]"
  unfolding text_acc_tr by (simp add: parse_defs)

lemma parse_sure: "parse_response basic_env (ustr ''Sure!'') = Inr []"
  by (simp add: ustr_def parse_defs)

lemma user_budget_none: "parse_user_budget basic_env [] = Inr None"
  by (simp add: parse_defs)

lemma user_budget_0: "parse_user_budget basic_env (rupee # ustr ''0'') = Inr (Some 0)"
  by (simp add: ustr_def parse_defs)

lemma user_budget_10000:
  "parse_user_budget basic_env (rupee # ustr ''10000'') = Inr (Some 10000)"
  by (simp add: ustr_def parse_defs)

lemma user_budget_2_lakh:
  "parse_user_budget basic_env (rupee # ustr ''2 lakh'') = Inr (Some 2)"
  by (simp add: ustr_def parse_defs)

lemma scaled_4000_2000:
  "with_user_budget [(accommodation, 4000), (transport, 2000)] 10000 =
     Inr (Some ([(accommodation, 6666), (transport, 3333)], 10000, scaled))"
  by (simp add: float_defs reconcile_defs)

lemma extract_acc_tr_10000:
  "extract_budget_from_response basic_env (ustr ''accommodation 4000 transport 2000'')
       (rupee # ustr ''10000'') =
     Inr (Some ([(accommodation, 6666), (transport, 3333)], 10000, scaled))"
  by (simp add: extract_budget_from_response_def user_budget_10000 parse_acc_tr reconcile_def
        scaled_4000_2000)

lemma text_acc_food:
  "ustr ''accommodation 5000 food 4800'' =
     [97, 99, 99, 111, 109, 109, 111, 100, 97, 116, 105, 111, 110, 32, 53, 48, 48, 48, 32,
      102, 111, 111, 100, 32, 52, 56, 48, 48]"
  by (simp add: ustr_def)

lemma parse_acc_food:
  "parse_response basic_env (ustr ''accommodation 5000 food 4800'') =
     Inr [(accommodation, 5000), (food, 4800)]"
  unfolding text_acc_food by (simp add: parse_defs)

lemma text_food_18:
  "ustr ''food 180000000000000009'' =
     [102, 111, 111, 100, 32, 49, 56, 48, 48, 48, 48, 48, 48, 48, 48, 48, 48, 48, 48, 48,
      48, 48, 57]"
  by (simp add: ustr_def)

lemma parse_food_18:
  "parse_response basic_env (ustr ''food 180000000000000009'') =
     Inr [(food, 180000000000000009)]"
  unfolding text_food_18 by (simp add: parse_defs)

lemma user_budget_2e17:
  "parse_user_budget basic_env (rupee # ustr ''200000000000000010'') =
     Inr (Some 200000000000000010)"
  by (simp add: ustr_def parse_defs)

lemma scaled_food_18:
  "with_user_budget [(food, 180000000000000009)] 200000000000000010 =
     Inr (Some ([(food, 200000000000000000)], 200000000000000010, scaled))"
  by (simp add: float_defs reconcile_defs)





section \<open>The dictionary\<close>

lemma map_of_dict_set: "map_of (dict_set d k v) = (map_of d)(k \<mapsto> v)"
  by (induction d k v rule: dict_set.induct) auto

lemma set_dict_set: "set (dict_set d k v) \<subseteq> insert (k, v) (set d)"
  by (induction d k v rule: dict_set.induct) auto

lemma map_of_record_amount:
  "map_of (record_amount c a rb) = (map_of rb)(c := keep_max (map_of rb c) a)"
  by (auto simp: record_amount_def keep_max_def map_of_dict_set fun_eq_iff max_def
           split: option.splits)

lemma set_record_amount:
  "set (record_amount c a rb) \<subseteq> (if 500 \<le> a then insert (c, a) (set rb) else set rb)"
  using set_dict_set[of rb c a] by (auto simp: record_amount_def split: option.splits)

section \<open>The threshold\<close>

lemma amounts_ok_record: "amounts_ok rb \<Longrightarrow> amounts_ok (record_amount c a rb)"
  using set_record_amount[of c a rb] by (auto simp: amounts_ok_def split: if_splits)

lemma amounts_ok_match_loop:
  "match_loop env c ms rb = Inr rb' \<Longrightarrow> amounts_ok rb \<Longrightarrow> amounts_ok rb'"
  by (induction ms arbitrary: rb) (auto split: sum.splits intro: amounts_ok_record)

lemma amounts_ok_pattern_loop:
  "pattern_loop env c ps t rb = Inr rb' \<Longrightarrow> amounts_ok rb \<Longrightarrow> amounts_ok rb'"
  by (induction ps arbitrary: rb) (auto split: sum.splits dest: amounts_ok_match_loop)

lemma amounts_ok_category_loop:
  "category_loop env pats t rb = Inr rb' \<Longrightarrow> amounts_ok rb \<Longrightarrow> amounts_ok rb'"
proof (induction pats arbitrary: rb)
  case Nil
  then show ?case by simp
next
  case (Cons cp pats)
  obtain c ps where cp: "cp = (c, ps)" by (cases cp)
  from Cons.prems(1) cp obtain rb1 where
    1: "pattern_loop env c ps t rb = Inr rb1" and 2: "category_loop env pats t rb1 = Inr rb'"
    by (auto split: sum.splits)
  from amounts_ok_pattern_loop[OF 1 Cons.prems(2)] have "amounts_ok rb1" .
  with Cons.IH[OF 2] show ?case .
qed

lemma amounts_ok_parse: "parse_response env t = Inr rb \<Longrightarrow> amounts_ok rb"
  unfolding parse_response_def by (erule amounts_ok_category_loop) (simp add: amounts_ok_def)

text \<open>
  C7. For every reply text, no amount below 500 is a value of the parser's output: whenever
  the parser returns a breakdown, each of its amounts is at least 500.
\<close>

theorem parser_threshold:
  "parse_response env response_text = Inr rb \<Longrightarrow> (c, a) \<in> set rb \<Longrightarrow> 500 \<le> a"
  by (drule amounts_ok_parse) (auto simp: amounts_ok_def)

theorem parser_threshold_witness:
  "parse_response basic_env (ustr ''food 300 food 900 food 700'') = Inr [(food, 900)] \<and>
   (food, 900) \<in> set [(food, 900)] \<and> (500::int) \<le> 900"
  using parser_threshold[of basic_env "ustr ''food 300 food 900 food 700''" "[(food, 900)]" food 900]
        parse_food3
  by simp

section \<open>The largest amount wins\<close>

lemma best_Nil [simp]: "best old [] = old"
  by (simp add: best_def)

lemma best_Cons [simp]: "best old (a # as) = best (keep_max old a) as"
  by (simp add: best_def)

lemma best_append [simp]: "best old (as @ bs) = best (best old as) bs"
  by (simp add: best_def)

lemma amounts_of_append [simp]:
  "amounts_of env (xs @ ys) = amounts_of env xs @ amounts_of env ys"
  by (induction xs) (auto split: sum.splits)

lemma match_loop_other:
  "match_loop env c ms rb = Inr rb' \<Longrightarrow> c' \<noteq> c \<Longrightarrow> map_of rb' c' = map_of rb c'"
  by (induction ms arbitrary: rb) (auto split: sum.splits simp: map_of_record_amount)

lemma match_loop_best:
  "match_loop env c ms rb = Inr rb' \<Longrightarrow> map_of rb' c = best (map_of rb c) (amounts_of env ms)"
  by (induction ms arbitrary: rb) (auto split: sum.splits simp: map_of_record_amount)

lemma pattern_loop_other:
  "pattern_loop env c ps t rb = Inr rb' \<Longrightarrow> c' \<noteq> c \<Longrightarrow> map_of rb' c' = map_of rb c'"
  by (induction ps arbitrary: rb) (auto split: sum.splits dest: match_loop_other)

lemma pattern_loop_best:
  "pattern_loop env c ps t rb = Inr rb' \<Longrightarrow>
   map_of rb' c =
     best (map_of rb c)
          (amounts_of env (concat (map (\<lambda>p. finditer env p (str_lower env t)) ps)))"
  by (induction ps arbitrary: rb) (auto split: sum.splits dest: match_loop_best)

lemma category_loop_best:
  "category_loop env pats t rb = Inr rb' \<Longrightarrow>
   map_of rb' c = best (map_of rb c) (amounts_of env (category_matches env pats c t))"
proof (induction pats arbitrary: rb)
  case Nil
  then show ?case by (simp add: category_matches_def)
next
  case (Cons cp pats)
  obtain c' ps where cp: "cp = (c', ps)" by (cases cp)
  from Cons.prems cp obtain rb1 where
    1: "pattern_loop env c' ps t rb = Inr rb1" and 2: "category_loop env pats t rb1 = Inr rb'"
    by (auto split: sum.splits)
  have tail: "map_of rb' c = best (map_of rb1 c) (amounts_of env (category_matches env pats c t))"
    by (rule Cons.IH[OF 2])
  show ?case
  proof (cases "c' = c")
    case True
    with pattern_loop_best[OF 1] tail cp show ?thesis
      by (simp add: category_matches_def)
  next
    case False
    with pattern_loop_other[OF 1, of c] tail cp show ?thesis
      by (simp add: category_matches_def)
  qed
qed

lemma best_Some:
  "500 \<le> v \<Longrightarrow> best (Some v) as = Some (Max (insert v (set (filter (\<lambda>a. 500 \<le> a) as))))"
proof (induction as arbitrary: v)
  case Nil
  then show ?case by simp
next
  case (Cons a as)
  show ?case
  proof (cases "500 \<le> a")
    case True
    have "best (Some v) (a # as) = best (Some (max v a)) as"
      using True by (simp add: keep_max_def)
    also have "\<dots> = Some (Max (insert (max v a) (set (filter (\<lambda>a. 500 \<le> a) as))))"
      using Cons.prems True by (intro Cons.IH) auto
    also have "Max (insert (max v a) (set (filter (\<lambda>a. 500 \<le> a) as))) =
               Max (insert v (set (filter (\<lambda>a. 500 \<le> a) (a # as))))"
    proof (cases "set (filter (\<lambda>a. 500 \<le> a) as) = {}")
      case True
      with \<open>500 \<le> a\<close> show ?thesis by (simp add: max.commute)
    next
      case False
      with \<open>500 \<le> a\<close> show ?thesis
        by (simp add: max.assoc max.commute max.left_commute del: set_filter)
    qed
    finally show ?thesis .
  next
    case False
    then show ?thesis using Cons by (simp add: keep_max_def)
  qed
qed

lemma best_None:
  "best None as =
     (let s = filter (\<lambda>a. 500 \<le> a) as in if s = [] then None else Some (Max (set s)))"
proof (induction as)
  case Nil
  then show ?case by simp
next
  case (Cons a as)
  show ?case
  proof (cases "500 \<le> a")
    case True
    then show ?thesis using best_Some[of a as] by (simp add: keep_max_def Let_def)
  next
    case False
    then show ?thesis using Cons by (simp add: keep_max_def)
  qed
qed

text \<open>
  C8. For every reply text and every category, the parser's output for the category is the
  largest of the amounts matched for it that reach 500, and the category is absent when no
  match reaches 500.
\<close>

theorem parser_max_wins:
  "parse_response env response_text = Inr rb \<Longrightarrow>
   map_of rb c = (if surviving env c response_text = [] then None
                  else Some (Max (set (surviving env c response_text))))"
  unfolding parse_response_def
  by (drule category_loop_best[where c = c]) (simp add: best_None surviving_def Let_def)

theorem parser_max_wins_witness:
  "parse_response basic_env (ustr ''food 300 food 900 food 700'') = Inr [(food, 900)] \<and>
   surviving basic_env food (ustr ''food 300 food 900 food 700'') = [900, 700] \<and>
   map_of [(food, 900 :: int)] food = Some (Max (set [900, 700]))"
  using parser_max_wins[of basic_env "ustr ''food 300 food 900 food 700''" "[(food, 900)]" food]
        parse_food3 surviving_food3
  by simp

section \<open>Which exceptions can be raised\<close>

lemma float_of_int_error: "float_of_int n = Inl err \<Longrightarrow> err = OverflowError"
  by (auto simp: float_of_int_def split: pyfloat.splits)

lemma int_times_float_error: "int_times_float n x = Inl err \<Longrightarrow> err = OverflowError"
  by (auto simp: int_times_float_def split: sum.splits dest: float_of_int_error)

lemma int_of_float_error:
  "int_of_float x = Inl err \<Longrightarrow> err = OverflowError \<or> err = ValueError"
  by (cases x) auto

lemma int_of_product_error:
  "int_of_product n x = Inl err \<Longrightarrow> err = OverflowError \<or> err = ValueError"
  by (auto simp: int_of_product_def split: sum.splits
           dest: int_times_float_error int_of_float_error)

lemma scale_items_error:
  "scale_items sf rb = Inl err \<Longrightarrow> err = OverflowError \<or> err = ValueError"
  by (induction sf rb rule: scale_items.induct)
     (auto split: sum.splits dest: int_of_product_error)

lemma estimate_items_error:
  "estimate_items b ss = Inl err \<Longrightarrow> err = OverflowError \<or> err = ValueError"
  by (induction b ss rule: estimate_items.induct)
     (auto split: sum.splits dest: int_of_product_error)

lemma int_truediv_error:
  "int_truediv a b = Inl err \<Longrightarrow> (err = ZeroDivisionError \<and> b = 0) \<or> err = OverflowError"
  by (auto simp: int_truediv_def split: if_splits pyfloat.splits)

lemma with_user_budget_zero_division:
  "with_user_budget rb b = Inl ZeroDivisionError \<Longrightarrow> rb \<noteq> [] \<and> dict_values_sum rb = 0"
  by (auto simp: with_user_budget_def Let_def split: if_splits sum.splits
           dest: int_times_float_error int_truediv_error scale_items_error estimate_items_error)

lemma match_amount_error:
  "match_amount env m = Inl err \<Longrightarrow> err = ValueError \<or> err = AttributeError"
  by (auto simp: match_amount_def group1_no_commas_def py_int_str_def
           split: sum.splits option.splits if_splits)

lemma parse_user_budget_error:
  "parse_user_budget env ui = Inl err \<Longrightarrow> err = ValueError \<or> err = AttributeError"
  by (auto simp: parse_user_budget_def split: option.splits sum.splits dest: match_amount_error)

lemma amounts_ok_sum: "amounts_ok rb \<Longrightarrow> rb \<noteq> [] \<Longrightarrow> 500 \<le> dict_values_sum rb"
proof (induction rb)
  case Nil
  then show ?case by simp
next
  case (Cons x rb)
  obtain c a where x: "x = (c, a)" by (cases x)
  from Cons.prems x have a: "500 \<le> a" and ok: "amounts_ok rb"
    by (auto simp: amounts_ok_def)
  show ?case
  proof (cases "rb = []")
    case True
    with a x show ?thesis by (simp add: dict_values_sum_def)
  next
    case False
    from Cons.IH[OF ok False] a x show ?thesis by (simp add: dict_values_sum_def)
  qed
qed

section \<open>Rounding\<close>

lemma rhe_div_error:
  assumes "0 < d"
  shows "\<bar>real_of_int (rhe_div n d) - real_of_int n / real_of_int d\<bar> \<le> 1 / 2"
proof -
  define f where "f = n div d"
  define r where "r = n mod d"
  have n: "n = f * d + r" by (simp add: f_def r_def)
  have r: "0 \<le> r" "r < d" using assms by (simp_all add: r_def)
  have q: "real_of_int n / real_of_int d = real_of_int f + real_of_int r / real_of_int d"
    using assms by (simp add: n field_simps)
  have d: "0 < real_of_int d" using assms by simp
  consider "2 * r < d" | "d < 2 * r" | "d = 2 * r" by linarith
  then show ?thesis
  proof cases
    case 1
    then have "rhe_div n d = f" by (simp add: rhe_div_def f_def r_def Let_def)
    moreover have "real_of_int r / real_of_int d \<le> 1 / 2" "0 \<le> real_of_int r / real_of_int d"
      using 1 r d by (simp_all add: field_simps)
    ultimately show ?thesis using q by simp
  next
    case 2
    then have "rhe_div n d = f + 1" by (simp add: rhe_div_def f_def r_def Let_def)
    moreover have "1 / 2 \<le> real_of_int r / real_of_int d" "real_of_int r / real_of_int d \<le> 1"
      using 2 r d by (simp_all add: field_simps)
    ultimately show ?thesis using q by simp
  next
    case 3
    then have "rhe_div n d = f \<or> rhe_div n d = f + 1"
      by (simp add: rhe_div_def f_def r_def Let_def)
    moreover have "real_of_int r / real_of_int d = 1 / 2"
      using 3 d by (simp add: field_simps)
    ultimately show ?thesis using q by auto
  qed
qed

lemma div_as_floor: "n div d = \<lfloor>real_of_int n / real_of_int d\<rfloor>"
  by (simp add: floor_divide_of_int_eq)

lemma rhe_div_ge:
  assumes "0 < d" "k * d \<le> n"
  shows "k \<le> rhe_div n d"
proof -
  have "real_of_int k \<le> real_of_int n / real_of_int d"
    using assms by (simp add: pos_le_divide_eq flip: of_int_mult)
  then have "k \<le> n div d" by (simp add: div_as_floor le_floor_iff)
  moreover have "n div d \<le> rhe_div n d" by (simp add: rhe_div_def Let_def)
  ultimately show ?thesis by simp
qed

lemma rhe_div_le:
  assumes "0 < d" "n \<le> k * d"
  shows "rhe_div n d \<le> k"
proof (cases "n = k * d")
  case True
  then show ?thesis using assms by (simp add: rhe_div_def Let_def)
next
  case False
  with assms have "n < k * d" by simp
  then have "real_of_int n / real_of_int d < real_of_int k"
    using assms by (simp add: pos_divide_less_eq flip: of_int_mult)
  then have "n div d < k" by (simp add: div_as_floor floor_less_iff)
  moreover have "rhe_div n d \<le> n div d + 1" by (simp add: rhe_div_def Let_def)
  ultimately show ?thesis by simp
qed

section \<open>The binary exponent\<close>

lemma ilog2_ratio_bounds:
  assumes "0 < p" "0 < q"
  shows "2 powi (ilog2_ratio p q) \<le> real_of_int p / real_of_int q"
    and "real_of_int p / real_of_int q < 2 powi (ilog2_ratio p q + 1)"
proof -
  define d where "d = bitlen p - bitlen q"
  have bp: "2 ^ nat (bitlen p - 1) \<le> p" "p < 2 ^ nat (bitlen p)"
    using bitlen_bounds[OF assms(1)] by simp_all
  have bq: "2 ^ nat (bitlen q - 1) \<le> q" "q < 2 ^ nat (bitlen q)"
    using bitlen_bounds[OF assms(2)] by simp_all
  have bp1: "1 \<le> bitlen p" and bq1: "1 \<le> bitlen q"
    using assms by (simp_all add: bitlen_alt_def)
  have "real_of_int (2 ^ nat (bitlen p - 1)) \<le> real_of_int p"
    by (rule iffD2[OF of_int_le_iff bp(1)])
  then have rp1: "2 powi (bitlen p - 1) \<le> real_of_int p"
    using bp1 by (simp add: power_int_nonneg_exp)
  have "real_of_int p < real_of_int (2 ^ nat (bitlen p))"
    by (rule iffD2[OF of_int_less_iff bp(2)])
  then have rp2: "real_of_int p < 2 powi (bitlen p)"
    using bp1 by (simp add: power_int_nonneg_exp)
  have "real_of_int (2 ^ nat (bitlen q - 1)) \<le> real_of_int q"
    by (rule iffD2[OF of_int_le_iff bq(1)])
  then have rq1: "2 powi (bitlen q - 1) \<le> real_of_int q"
    using bq1 by (simp add: power_int_nonneg_exp)
  have "real_of_int q < real_of_int (2 ^ nat (bitlen q))"
    by (rule iffD2[OF of_int_less_iff bq(2)])
  then have rq2: "real_of_int q < 2 powi (bitlen q)"
    using bq1 by (simp add: power_int_nonneg_exp)
  have qpos: "0 < real_of_int q" using assms by simp
  have test: "(if 0 \<le> d then q * 2 ^ nat d \<le> p else q \<le> p * 2 ^ nat (- d)) \<longleftrightarrow>
              2 powi d \<le> real_of_int p / real_of_int q"
  proof (cases "0 \<le> d")
    case True
    have "q * 2 ^ nat d \<le> p \<longleftrightarrow> real_of_int (q * 2 ^ nat d) \<le> real_of_int p"
      by (rule of_int_le_iff[symmetric])
    also have "\<dots> \<longleftrightarrow> real_of_int q * 2 ^ nat d \<le> real_of_int p"
      by simp
    also have "\<dots> \<longleftrightarrow> 2 powi d \<le> real_of_int p / real_of_int q"
      using True qpos by (simp add: power_int_nonneg_exp pos_le_divide_eq mult.commute)
    finally show ?thesis using True by simp
  next
    case False
    then have d: "d = - int (nat (- d))" by simp
    have "q \<le> p * 2 ^ nat (- d) \<longleftrightarrow> real_of_int q \<le> real_of_int (p * 2 ^ nat (- d))"
      by (rule of_int_le_iff[symmetric])
    also have "\<dots> \<longleftrightarrow> real_of_int q \<le> real_of_int p * 2 ^ nat (- d)"
      by simp
    also have "\<dots> \<longleftrightarrow> 2 powi d \<le> real_of_int p / real_of_int q"
      using qpos by (subst (2) d) (simp add: power_int_minus field_simps del: int_nat_eq)
    finally show ?thesis using False by simp
  qed
  have up: "real_of_int p / real_of_int q < 2 powi (d + 1)"
  proof -
    have "real_of_int p < 2 powi (d + 1) * 2 powi (bitlen q - 1)"
      using rp2 by (simp add: d_def flip: power_int_add)
    also have "\<dots> \<le> 2 powi (d + 1) * real_of_int q"
      using rq1 by (simp add: mult_left_mono)
    finally show ?thesis using qpos by (simp add: pos_divide_less_eq)
  qed
  have lo: "2 powi (d - 1) \<le> real_of_int p / real_of_int q"
  proof -
    have "2 powi (d - 1) * real_of_int q \<le> 2 powi (d - 1) * 2 powi (bitlen q)"
      using rq2 by (simp add: mult_left_mono)
    also have "\<dots> = 2 powi (bitlen p - 1)"
      by (simp add: d_def flip: power_int_add)
    also have "\<dots> \<le> real_of_int p" by (rule rp1)
    finally show ?thesis using qpos by (simp add: pos_le_divide_eq)
  qed
  show "2 powi (ilog2_ratio p q) \<le> real_of_int p / real_of_int q"
    using test lo by (auto simp: ilog2_ratio_def Let_def d_def)
  show "real_of_int p / real_of_int q < 2 powi (ilog2_ratio p q + 1)"
    using test up by (auto simp: ilog2_ratio_def Let_def d_def)
qed


lemma two_powi_less_iff: "(2::real) powi a < 2 powi b \<longleftrightarrow> a < b"
proof
  assume l: "(2::real) powi a < 2 powi b"
  show "a < b"
  proof (rule ccontr)
    assume "\<not> a < b"
    then have "b \<le> a" by simp
    then have "(2::real) powi b \<le> 2 powi a" by (intro power_int_increasing) simp_all
    with l show False by simp
  qed
next
  assume "a < b"
  then show "(2::real) powi a < 2 powi b" by (intro power_int_strict_increasing) simp_all
qed

lemma two_powi_neg: "e < 0 \<Longrightarrow> (2::real) powi e = 1 / 2 ^ nat (- e)"
  by (simp add: power_int_def inverse_eq_divide power_one_over)

section \<open>Rounding a ratio in the normal range\<close>

lemma round_ratio_normal:
  fixes p q :: int
  defines "x \<equiv> real_of_int p / real_of_int q"
  assumes pq: "0 < p" "0 < q"
    and lo: "2 powi a \<le> x" "- 1022 \<le> a"
    and hi: "x < 2 powi b" "b \<le> 1023"
  shows "\<exists>m e. round_ratio p q = Dbl m e \<and> a - 52 \<le> e \<and> e < b - 52 \<and>
           2 powi (e + 52) \<le> x \<and>
           \<bar>real_of_int m - x / 2 powi e\<bar> \<le> 1 / 2 \<and>
           (\<forall>j. real_of_int j \<le> x / 2 powi e \<longrightarrow> j \<le> m) \<and>
           (\<forall>j. x / 2 powi e \<le> real_of_int j \<longrightarrow> m \<le> j)"
proof -
  define L where "L = ilog2_ratio p q"
  have L1: "2 powi L \<le> x" and L2: "x < 2 powi (L + 1)"
    using ilog2_ratio_bounds[OF pq] by (simp_all add: L_def x_def)
  have "(2::real) powi a < 2 powi (L + 1)" using lo(1) L2 by simp
  then have aL: "a \<le> L" by (simp add: two_powi_less_iff)
  have "(2::real) powi L < 2 powi b" using L1 hi(1) by simp
  then have Lb: "L < b" by (simp add: two_powi_less_iff)
  define e where "e = L - 52"
  define N where "N = (if 0 \<le> e then p else p * 2 ^ nat (- e))"
  define D where "D = (if 0 \<le> e then q * 2 ^ nat e else q)"
  define m where "m = rhe_div N D"
  have Dpos: "0 < D" using pq by (simp add: D_def)
  have e_eq: "max (ilog2_ratio \<bar>p\<bar> q) (- 1022) - 52 = e"
    using aL lo(2) pq by (simp add: e_def L_def)
  have m_eq: "(if 0 \<le> e then rhe_div p (q * 2 ^ nat e) else rhe_div (p * 2 ^ nat (- e)) q) = m"
    by (simp add: m_def N_def D_def)
  have no_overflow: "\<not> (971 < e \<or> (e = 971 \<and> 2 ^ 53 \<le> \<bar>m\<bar>))"
    using Lb hi(2) by (simp add: e_def)
  have rr: "round_ratio p q = Dbl m e"
    unfolding round_ratio_def e_eq Let_def m_eq using pq no_overflow by simp
  have ND: "real_of_int N / real_of_int D = x / 2 powi e"
  proof (cases "0 \<le> e")
    case True
    then show ?thesis by (simp add: N_def D_def x_def power_int_nonneg_exp)
  next
    case False
    then show ?thesis by (simp add: N_def D_def x_def two_powi_neg)
  qed
  have err: "\<bar>real_of_int m - x / 2 powi e\<bar> \<le> 1 / 2"
    using rhe_div_error[OF Dpos, of N] by (simp add: m_def ND)
  have ge: "j \<le> m" if "real_of_int j \<le> x / 2 powi e" for j
  proof -
    from that have "real_of_int j * real_of_int D \<le> real_of_int N"
      using Dpos by (simp add: pos_le_divide_eq flip: ND)
    then have "j * D \<le> N" by (simp flip: of_int_mult add: of_int_le_iff)
    then show ?thesis unfolding m_def by (rule rhe_div_ge[OF Dpos])
  qed
  have le: "m \<le> j" if "x / 2 powi e \<le> real_of_int j" for j
  proof -
    from that have "real_of_int N \<le> real_of_int j * real_of_int D"
      using Dpos by (simp add: pos_divide_le_eq flip: ND)
    then have "N \<le> j * D" by (simp flip: of_int_mult add: of_int_le_iff)
    then show ?thesis unfolding m_def by (rule rhe_div_le[OF Dpos])
  qed
  from rr aL Lb L1 err ge le show ?thesis
    by (intro exI[of _ m] exI[of _ e]) (simp add: e_def)
qed

lemma round_ratio_value:
  fixes p q :: int
  assumes pq: "0 < p" "0 < q"
    and lo: "2 powi a \<le> real_of_int p / real_of_int q" "- 1022 \<le> a"
    and hi: "real_of_int p / real_of_int q < 2 powi b" "b \<le> 53"
  shows "rounds_to (real_of_int p / real_of_int q) (round_ratio p q)"
proof -
  define x where "x = real_of_int p / real_of_int q"
  from round_ratio_normal[OF pq lo hi(1)] hi(2)
  obtain m e where rr: "round_ratio p q = Dbl m e"
    and e: "e < b - 52" and n: "2 powi (e + 52) \<le> x"
    and err: "\<bar>real_of_int m - x / 2 powi e\<bar> \<le> 1 / 2"
    and ge: "\<And>j. real_of_int j \<le> x / 2 powi e \<Longrightarrow> j \<le> m"
    and le: "\<And>j. x / 2 powi e \<le> real_of_int j \<Longrightarrow> m \<le> j"
    unfolding x_def by force
  have e0: "e \<le> 0" using e hi(2) by simp
  have pe: "0 < (2::real) powi e" by simp
  have sc: "real_of_int (k * 2 ^ nat (- e)) = real_of_int k / 2 powi e" for k
  proof (cases "e = 0")
    case True
    then show ?thesis by simp
  next
    case False
    with e0 have "e < 0" by simp
    then show ?thesis by (simp add: two_powi_neg)
  qed
  have y: "fval (Dbl m e) = real_of_int m * 2 powi e" by simp
  have "\<bar>real_of_int m * 2 powi e - x\<bar> = \<bar>real_of_int m - x / 2 powi e\<bar> * 2 powi e"
  proof -
    have "real_of_int m * 2 powi e - x = (real_of_int m - x / 2 powi e) * 2 powi e"
      by (simp add: field_simps)
    then show ?thesis by (simp add: abs_mult)
  qed
  also have "\<dots> \<le> 1 / 2 * 2 powi e"
    using err pe by (intro mult_right_mono) simp_all
  also have "\<dots> = 2 powi (e + 52) / 2 ^ 53"
    by (simp add: power_int_add)
  also have "\<dots> \<le> x / 2 ^ 53"
    using n by (simp add: divide_right_mono)
  finally have E: "\<bar>fval (Dbl m e) - x\<bar> \<le> x / 2 ^ 53" by simp
  have G: "real_of_int k \<le> fval (Dbl m e)" if "real_of_int k \<le> x" for k
  proof -
    from that have "real_of_int (k * 2 ^ nat (- e)) \<le> x / 2 powi e"
      unfolding sc using pe by (simp add: divide_right_mono)
    then have "k * 2 ^ nat (- e) \<le> m" by (rule ge)
    then have "real_of_int (k * 2 ^ nat (- e)) \<le> real_of_int m" by (simp only: of_int_le_iff)
    then show ?thesis unfolding sc y using pe by (simp add: pos_divide_le_eq)
  qed
  have U: "fval (Dbl m e) \<le> real_of_int k" if "x \<le> real_of_int k" for k
  proof -
    from that have "x / 2 powi e \<le> real_of_int (k * 2 ^ nat (- e))"
      unfolding sc using pe by (simp add: divide_right_mono)
    then have "m \<le> k * 2 ^ nat (- e)" by (rule le)
    then have "real_of_int m \<le> real_of_int (k * 2 ^ nat (- e))" by (simp only: of_int_le_iff)
    then show ?thesis unfolding sc y using pe by (simp add: pos_le_divide_eq)
  qed
  have "1 \<le> x / 2 powi e"
  proof -
    have "(1::real) \<le> 2 powi 52" by simp
    also have "\<dots> = 2 powi (e + 52) / 2 powi e" by (simp add: power_int_add)
    also have "\<dots> \<le> x / 2 powi e" using n pe by (simp add: divide_right_mono)
    finally show ?thesis .
  qed
  then have "real_of_int 1 \<le> x / 2 powi e" by simp
  then have "1 \<le> m" by (rule ge)
  with rr E G U show ?thesis
    unfolding rounds_to_def x_def[symmetric] by (intro exI[of _ m] exI[of _ e]) simp
qed

lemma rounds_to_exact:
  assumes "rounds_to (real_of_int n) y"
  shows "fval y = real_of_int n"
  using assms unfolding rounds_to_def by (metis order_refl order_antisym)

lemma float_of_int_exact:
  assumes "0 < n" "n < 2 ^ 53"
  shows "\<exists>m e. float_of_int n = Inr (Dbl m e) \<and> 0 < m \<and> fval (Dbl m e) = real_of_int n"
proof -
  have "rounds_to (real_of_int n / real_of_int 1) (round_ratio n 1)"
  proof (rule round_ratio_value[where a = 0 and b = 53])
    have "real_of_int n < real_of_int (2 ^ 53)"
      by (rule iffD2[OF of_int_less_iff assms(2)])
    then show "real_of_int n / real_of_int 1 < 2 powi 53" by simp
    show "2 powi 0 \<le> real_of_int n / real_of_int 1"
      using assms(1) by simp
  qed (use assms in simp_all)
  then have r: "rounds_to (real_of_int n) (round_ratio n 1)" by simp
  then obtain m e where "round_ratio n 1 = Dbl m e" "0 < m"
    unfolding rounds_to_def by blast
  with rounds_to_exact[OF r] show ?thesis by (simp add: float_of_int_def)
qed

lemma fmul_value:
  assumes m: "0 < m1" "0 < m2"
    and lo: "2 powi a \<le> fval (Dbl m1 e1) * fval (Dbl m2 e2)" "- 1022 \<le> a"
    and hi: "fval (Dbl m1 e1) * fval (Dbl m2 e2) < 2 powi b" "b \<le> 53"
  shows "rounds_to (fval (Dbl m1 e1) * fval (Dbl m2 e2)) (fmul (Dbl m1 e1) (Dbl m2 e2))"
proof -
  define e where "e = e1 + e2"
  define P where "P = (if 0 \<le> e then m1 * m2 * 2 ^ nat e else m1 * m2)"
  define Q where "Q = (if 0 \<le> e then 1 else (2::int) ^ nat (- e))"
  have PQ: "0 < P" "0 < Q" using m by (simp_all add: P_def Q_def)
  have f: "fmul (Dbl m1 e1) (Dbl m2 e2) = round_ratio P Q"
    by (simp add: P_def Q_def e_def)
  have prod: "fval (Dbl m1 e1) * fval (Dbl m2 e2) = real_of_int m1 * real_of_int m2 * 2 powi e"
    by (simp add: e_def power_int_add)
  have v: "real_of_int P / real_of_int Q = fval (Dbl m1 e1) * fval (Dbl m2 e2)"
  proof (cases "0 \<le> e")
    case True
    then show ?thesis unfolding prod by (simp add: P_def Q_def power_int_nonneg_exp)
  next
    case False
    then show ?thesis unfolding prod by (simp add: P_def Q_def two_powi_neg)
  qed
  show ?thesis unfolding f v[symmetric]
    by (rule round_ratio_value[OF PQ]) (use lo hi v in simp_all)
qed


lemma int_gt_float_iff: "int_gt_float n (Dbl m e) \<longleftrightarrow> fval (Dbl m e) < real_of_int n"
proof (cases "0 \<le> e")
  case True
  have "real_of_int m * 2 powi e = real_of_int (m * 2 ^ nat e)"
    using True by (simp add: power_int_nonneg_exp)
  then show ?thesis using True by (simp del: of_int_mult of_int_power)
next
  case False
  have "m < n * 2 ^ nat (- e) \<longleftrightarrow> real_of_int m < real_of_int (n * 2 ^ nat (- e))"
    by (simp only: of_int_less_iff)
  also have "\<dots> \<longleftrightarrow> real_of_int m * 2 powi e < real_of_int n"
    using False by (simp add: two_powi_neg field_simps)
  finally show ?thesis using False by simp
qed

section \<open>The test of the deviation against a tenth of the budget\<close>

text \<open>Line 69 compares with \<open>user_budget * 0.1\<close>, where \<open>0.1\<close> is the float
  \<open>(1 + 2 ^ - 54) / 10\<close>.\<close>

lemma tenth_lit: "float_lit 1 10 = Dbl 7205759403792794 (- 56)"
  by (simp add: float_defs)

lemma tenth_value: "fval (Dbl 7205759403792794 (- 56)) = (1 + 1 / 2 ^ 54) / 10"
  by (simp add: two_powi_neg)

lemma rounds_to_Dbl:
  assumes "rounds_to x y"
  obtains m e where "y = Dbl m e" "0 < m" "\<bar>fval (Dbl m e) - x\<bar> \<le> x / 2 ^ 53"
    "\<And>k. real_of_int k \<le> x \<Longrightarrow> real_of_int k \<le> fval (Dbl m e)"
    "\<And>k. x \<le> real_of_int k \<Longrightarrow> fval (Dbl m e) \<le> real_of_int k"
  using assms unfolding rounds_to_def by blast

lemma tenth_rounds:
  assumes "0 < ut" "ut < 2 ^ 53"
  shows "\<exists>y. int_times_float ut (float_lit 1 10) = Inr y \<and>
             rounds_to (real_of_int ut * ((1 + 1 / 2 ^ 54) / 10)) y"
proof -
  from float_of_int_exact[OF assms] obtain m1 e1
    where f: "float_of_int ut = Inr (Dbl m1 e1)" and m1: "0 < m1"
      and v: "fval (Dbl m1 e1) = real_of_int ut"
    by blast
  define c :: real where "c = (1 + 1 / 2 ^ 54) / 10"
  have c: "1 / 16 \<le> c" "c \<le> 1" by (simp_all add: c_def)
  have u: "1 \<le> real_of_int ut" "real_of_int ut < 2 ^ 53"
  proof -
    from assms(1) show "1 \<le> real_of_int ut" by simp
    have "real_of_int ut < real_of_int (2 ^ 53)"
      by (rule iffD2[OF of_int_less_iff assms(2)])
    then show "real_of_int ut < 2 ^ 53" by simp
  qed
  have lo: "2 powi (- 4) \<le> real_of_int ut * c"
  proof -
    have "2 powi (- 4) = (1 / 16 :: real)" by (simp add: two_powi_neg)
    also have "\<dots> \<le> 1 * c" using c by simp
    also have "\<dots> \<le> real_of_int ut * c" using u c by (intro mult_right_mono) simp_all
    finally show ?thesis .
  qed
  have hi: "real_of_int ut * c < 2 powi 53"
  proof -
    have "real_of_int ut * c \<le> real_of_int ut * 1" using u c by (intro mult_left_mono) simp_all
    also have "\<dots> < 2 ^ 53" using u by simp
    finally show ?thesis by simp
  qed
  have vv: "fval (Dbl m1 e1) * fval (Dbl 7205759403792794 (- 56)) = real_of_int ut * c"
    by (simp only: v tenth_value c_def)
  have m2: "(0::int) < 7205759403792794" by simp
  have "rounds_to (fval (Dbl m1 e1) * fval (Dbl 7205759403792794 (- 56)))
          (fmul (Dbl m1 e1) (Dbl 7205759403792794 (- 56)))"
  proof (rule fmul_value[OF m1 m2, where a = "- 4" and b = 53])
    show "2 powi (- 4) \<le> fval (Dbl m1 e1) * fval (Dbl 7205759403792794 (- 56))"
      unfolding vv by (rule lo)
    show "fval (Dbl m1 e1) * fval (Dbl 7205759403792794 (- 56)) < 2 powi 53"
      unfolding vv by (rule hi)
  qed simp_all
  then have "rounds_to (real_of_int ut * c) (fmul (Dbl m1 e1) (Dbl 7205759403792794 (- 56)))"
    unfolding vv .
  then show ?thesis
    unfolding c_def int_times_float_def f tenth_lit by simp
qed

lemma threshold_not_exceeded:
  assumes "0 < ut" "ut < 2 ^ 53" "int_times_float ut (float_lit 1 10) = Inr t" "10 * n \<le> ut"
  shows "\<not> int_gt_float n t"
proof -
  from tenth_rounds[OF assms(1,2)] assms(3)
  have r: "rounds_to (real_of_int ut * ((1 + 1 / 2 ^ 54) / 10)) t" by simp
  then obtain m e where t: "t = Dbl m e"
    and ge: "\<And>k. real_of_int k \<le> real_of_int ut * ((1 + 1 / 2 ^ 54) / 10) \<Longrightarrow>
                 real_of_int k \<le> fval (Dbl m e)"
    by (rule rounds_to_Dbl) blast
  have "real_of_int (10 * n) \<le> real_of_int ut"
    by (rule iffD2[OF of_int_le_iff assms(4)])
  then have "real_of_int n \<le> real_of_int ut / 10" by simp
  also have "\<dots> \<le> real_of_int ut * ((1 + 1 / 2 ^ 54) / 10)"
    using assms(1) by (simp add: field_simps)
  finally have "real_of_int n \<le> fval (Dbl m e)" by (rule ge)
  then show ?thesis unfolding t int_gt_float_iff by simp
qed

lemma threshold_exceeded:
  assumes "0 < ut" "ut \<le> 5000000000000000" "int_times_float ut (float_lit 1 10) = Inr t"
    "ut < 10 * n"
  shows "int_gt_float n t"
proof -
  have ut53: "ut < 2 ^ 53" using assms(2) by simp
  define x where "x = real_of_int ut * ((1 + 1 / 2 ^ 54) / 10)"
  from tenth_rounds[OF assms(1) ut53] assms(3)
  have r: "rounds_to x t" by (simp add: x_def)
  then obtain m e where t: "t = Dbl m e"
    and err: "\<bar>fval (Dbl m e) - x\<bar> \<le> x / 2 ^ 53"
    by (rule rounds_to_Dbl) blast
  have u: "0 < real_of_int ut" "real_of_int ut \<le> 5000000000000000"
  proof -
    from assms(1) show "0 < real_of_int ut" by simp
    have "real_of_int ut \<le> real_of_int 5000000000000000"
      by (rule iffD2[OF of_int_le_iff assms(2)])
    then show "real_of_int ut \<le> 5000000000000000" by simp
  qed
  have "ut + 1 \<le> 10 * n" using assms(4) by simp
  then have "real_of_int (ut + 1) \<le> real_of_int (10 * n)" by (simp only: of_int_le_iff)
  then have n: "real_of_int ut / 10 + 1 / 10 \<le> real_of_int n" by simp
  have "fval (Dbl m e) \<le> x + x / 2 ^ 53" using err by linarith
  also have "\<dots> = real_of_int ut / 10 + real_of_int ut * (((1 + 1 / 2 ^ 54) * (1 + 1 / 2 ^ 53) - 1) / 10)"
    by (simp add: x_def field_simps)
  also have "\<dots> \<le> real_of_int ut / 10 + 5000000000000000 * (((1 + 1 / 2 ^ 54) * (1 + 1 / 2 ^ 53) - 1) / 10)"
    using u by (intro add_left_mono mult_right_mono) simp_all
  also have "\<dots> < real_of_int ut / 10 + 1 / 10" by simp
  finally have "fval (Dbl m e) < real_of_int n" using n by linarith
  then show ?thesis unfolding t int_gt_float_iff .
qed

section \<open>The total of a result\<close>

text \<open>
  C1, as stated: in every result that is not absent the total is the sum of the values of
  the breakdown. This fails for a scaled result: for the reply
  \<open>accommodation 4000 transport 2000\<close> and a user's text with the budget 10000 the function
  returns the total 10000 with amounts that add up to 9999.
\<close>

theorem total_is_sum_counterexample:
  "extract_budget_from_response basic_env (ustr ''accommodation 4000 transport 2000'')
       (rupee # ustr ''10000'') =
     Inr (Some ([(accommodation, 6666), (transport, 3333)], 10000, scaled)) \<and>
   dict_values_sum [(accommodation, 6666), (transport, 3333)] = 9999"
  by (simp add: extract_acc_tr_10000 dict_values_sum_def)

text \<open>
  C1, amended: in a result tagged \<open>specific\<close> the total is the sum of the values of the
  breakdown; in a result tagged \<open>scaled\<close> or \<open>estimated\<close> the total is the budget read from
  the user's text.
\<close>

theorem total_by_tag:
  "extract_budget_from_response env response_text user_input = Inr (Some (bd, tot, tg)) \<Longrightarrow>
   (tg = specific \<longrightarrow> tot = dict_values_sum bd) \<and>
   (tg \<noteq> specific \<longrightarrow> parse_user_budget env user_input = Inr (Some tot))"
  by (auto simp: extract_budget_from_response_def reconcile_def with_user_budget_def
        without_user_budget_def Let_def split: sum.splits option.splits if_splits)

theorem total_by_tag_witness:
  "extract_budget_from_response basic_env (ustr ''accommodation 4000 transport 2000'')
       (rupee # ustr ''10000'') =
     Inr (Some ([(accommodation, 6666), (transport, 3333)], 10000, scaled)) \<and>
   scaled \<noteq> specific \<and>
   parse_user_budget basic_env (rupee # ustr ''10000'') = Inr (Some 10000)"
  using total_by_tag[OF extract_acc_tr_10000] extract_acc_tr_10000 by simp

section \<open>A response total of zero\<close>

text \<open>
  The spec's edge case of a non-empty breakdown whose amounts add up to zero cannot arise in
  \<open>extract_budget_from_response\<close>: whenever the parser returns a non-empty breakdown its
  amounts add up to at least 500, and the function never raises \<open>ZeroDivisionError\<close>,
  whatever the user's text is. Lines 61 to 96 hold no test of the response total against
  zero.
\<close>

theorem response_total_positive:
  "parse_response env response_text = Inr rb \<Longrightarrow> rb \<noteq> [] \<Longrightarrow>
   500 \<le> dict_values_sum rb \<and>
   extract_budget_from_response env response_text user_input \<noteq> Inl ZeroDivisionError"
proof -
  assume p: "parse_response env response_text = Inr rb" and ne: "rb \<noteq> []"
  from amounts_ok_sum[OF amounts_ok_parse[OF p] ne] have s: "500 \<le> dict_values_sum rb" .
  have "extract_budget_from_response env response_text user_input \<noteq> Inl ZeroDivisionError"
  proof
    assume e: "extract_budget_from_response env response_text user_input = Inl ZeroDivisionError"
    show False
    proof (cases "parse_user_budget env user_input")
      case (Inl err)
      with e parse_user_budget_error[OF Inl] show False
        by (auto simp: extract_budget_from_response_def)
    next
      case (Inr ub)
      with e p have "reconcile rb ub = Inl ZeroDivisionError"
        by (simp add: extract_budget_from_response_def)
      then have "\<exists>b. with_user_budget rb b = Inl ZeroDivisionError"
        by (auto simp: reconcile_def split: option.splits if_splits)
      with with_user_budget_zero_division s show False by fastforce
    qed
  qed
  with s show ?thesis by simp
qed

theorem response_total_positive_witness:
  "parse_response basic_env (ustr ''food 300 food 900 food 700'') = Inr [(food, 900)] \<and>
   [(food, 900 :: int)] \<noteq> [] \<and>
   500 \<le> dict_values_sum [(food, 900)] \<and>
   extract_budget_from_response basic_env (ustr ''food 300 food 900 food 700'') [] \<noteq>
     Inl ZeroDivisionError"
  using response_total_positive[OF parse_food3, of "[]"] parse_food3 by simp

section \<open>A response total close to the budget\<close>

text \<open>
  C6, as stated: for every user total and every non-empty parsed breakdown whose total
  differs from it by at most a tenth of it, the parsed breakdown is returned as it is,
  tagged \<open>specific\<close>. Line 69 makes the comparison with the float \<open>user_budget * 0.1\<close>.
  For the budget 200000000000000010 and the reply \<open>food 180000000000000009\<close> the
  deviation is exactly a tenth of the budget, the float product is 20000000000000000, one
  below the deviation, and the function scales.
\<close>

theorem close_match_counterexample:
  "extract_budget_from_response basic_env (ustr ''food 180000000000000009'')
       (rupee # ustr ''200000000000000010'') =
     Inr (Some ([(food, 200000000000000000)], 200000000000000010, scaled)) \<and>
   10 * \<bar>dict_values_sum [(food, 180000000000000009)] - 200000000000000010\<bar> \<le>
     (200000000000000010 :: int)"
  by (simp add: extract_budget_from_response_def user_budget_2e17 parse_food_18 reconcile_def
        scaled_food_18 dict_values_sum_def)

text \<open>
  C6, amended: the same for every user total below \<open>2 ^ 53\<close>, a range in which the
  conversion of the budget to a float is exact; the spec's example, the amounts 5000 and 4800
  with the budget 10000, is the witness.
\<close>

theorem close_match_passthrough:
  assumes ub: "parse_user_budget env user_input = Inr (Some ut)" and small: "ut < 2 ^ 53"
    and rb: "parse_response env response_text = Inr rb" "rb \<noteq> []"
    and close: "10 * \<bar>dict_values_sum rb - ut\<bar> \<le> ut"
  shows "extract_budget_from_response env response_text user_input =
           Inr (Some (rb, dict_values_sum rb, specific))"
proof -
  from amounts_ok_sum[OF amounts_ok_parse[OF rb(1)] rb(2)]
  have s: "500 \<le> dict_values_sum rb" .
  with close have pos: "0 < ut" by arith
  from tenth_rounds[OF pos small] obtain t
    where t: "int_times_float ut (float_lit 1 10) = Inr t" by blast
  from threshold_not_exceeded[OF pos small t close]
  have "\<not> int_gt_float \<bar>dict_values_sum rb - ut\<bar> t" .
  with t pos rb(2) have "with_user_budget rb ut = Inr (Some (rb, dict_values_sum rb, specific))"
    by (simp add: with_user_budget_def)
  with ub rb(1) pos show ?thesis
    by (simp add: extract_budget_from_response_def reconcile_def)
qed

theorem close_match_passthrough_witness:
  "parse_user_budget basic_env (rupee # ustr ''10000'') = Inr (Some 10000) \<and>
   (10000 :: int) < 2 ^ 53 \<and>
   parse_response basic_env (ustr ''accommodation 5000 food 4800'') =
     Inr [(accommodation, 5000), (food, 4800)] \<and>
   [(accommodation, 5000 :: int), (food, 4800)] \<noteq> [] \<and>
   10 * \<bar>dict_values_sum [(accommodation, 5000), (food, 4800)] - 10000\<bar> \<le> 10000 \<and>
   extract_budget_from_response basic_env (ustr ''accommodation 5000 food 4800'')
       (rupee # ustr ''10000'') =
     Inr (Some ([(accommodation, 5000), (food, 4800)], 9800, specific))"
proof -
  have c: "10 * \<bar>dict_values_sum [(accommodation, 5000), (food, 4800)] - 10000\<bar> \<le> 10000"
    by (simp add: dict_values_sum_def)
  have "extract_budget_from_response basic_env (ustr ''accommodation 5000 food 4800'')
            (rupee # ustr ''10000'') =
          Inr (Some ([(accommodation, 5000), (food, 4800)],
                 dict_values_sum [(accommodation, 5000), (food, 4800)], specific))"
    by (rule close_match_passthrough[OF user_budget_10000 _ parse_acc_food _ c]) simp_all
  with c user_budget_10000 parse_acc_food show ?thesis
    by (simp add: dict_values_sum_def)
qed

section \<open>The estimate\<close>








section \<open>Amounts of zero\<close>

text \<open>
  C4 says that every amount of a returned breakdown is positive. For the user's text
  \<open>2 lakh\<close> after a rupee sign the budget read is 2, and with a reply that names no amount
  the estimate is zero in all five categories.
\<close>

theorem estimate_of_two_lakh:
  "extract_budget_from_response basic_env (ustr ''Sure!'') (rupee # ustr ''2 lakh'') =
     Inr (Some ([(accommodation, 0), (transport, 0), (food, 0), (activities, 0),
                 (miscellaneous, 0)], 2, estimated))"
  by (simp add: extract_budget_from_response_def user_budget_2_lakh parse_sure float_defs
        reconcile_defs)

section \<open>A stated budget of zero\<close>

text \<open>
  C10. When the first rupee-marked number of the user's text is 0, the function returns what
  it returns for a user's text without any rupee-marked number: the parsed breakdown as it
  is, tagged \<open>specific\<close>, with the sum of its amounts as total, when the breakdown is not
  empty, and nothing otherwise. Neither scaling nor estimation takes place.
\<close>

theorem zero_budget_ignored:
  "parse_user_budget env user_input = Inr (Some 0) \<Longrightarrow>
   parse_user_budget env other_input = Inr None \<Longrightarrow>
   extract_budget_from_response env response_text user_input =
     extract_budget_from_response env response_text other_input \<and>
   extract_budget_from_response env response_text user_input =
     (case parse_response env response_text of
        Inl err \<Rightarrow> Inl err
      | Inr rb \<Rightarrow> Inr (if rb \<noteq> [] then Some (rb, dict_values_sum rb, specific) else None))"
  by (auto simp: extract_budget_from_response_def reconcile_def without_user_budget_def
           split: sum.splits)

theorem zero_budget_ignored_witness:
  "parse_user_budget basic_env (rupee # ustr ''0'') = Inr (Some 0) \<and>
   parse_user_budget basic_env [] = Inr None \<and>
   extract_budget_from_response basic_env (ustr ''food 300 food 900 food 700'')
       (rupee # ustr ''0'') =
     extract_budget_from_response basic_env (ustr ''food 300 food 900 food 700'') [] \<and>
   extract_budget_from_response basic_env (ustr ''food 300 food 900 food 700'')
       (rupee # ustr ''0'') =
     Inr (Some ([(food, 900)], 900, specific))"
proof -
  note z = zero_budget_ignored[OF user_budget_0 user_budget_none,
             of "ustr ''food 300 food 900 food 700''"]
  from z[THEN conjunct2]
  have "extract_budget_from_response basic_env (ustr ''food 300 food 900 food 700'')
                   (rupee # ustr ''0'') =
               Inr (Some ([(food, 900)], 900, specific))"
    by (simp add: parse_food3 dict_values_sum_def)
  with z user_budget_0 user_budget_none show ?thesis by blast
qed

section \<open>The manual entry\<close>










end
